theory Spec2Isabelle
  imports Main "HOL-Library.Sublist"
begin

section \<open>Strings and regular expressions used by \<open>arxiv.py\<close>\<close>

text \<open>
  Python strings are modelled as \<open>string\<close>. Over this character type the class
  \<open>\d\<close> is the ten ASCII digits and \<open>[a-zA-Z.-]\<close> is what it spells.
\<close>

definition is_digit :: "char \<Rightarrow> bool" where
  "is_digit c = (let n = (of_char c :: nat) in 48 \<le> n \<and> n \<le> 57)"

definition is_cat_char :: "char \<Rightarrow> bool" where
  "is_cat_char c =
     (let n = (of_char c :: nat)
      in (97 \<le> n \<and> n \<le> 122) \<or> (65 \<le> n \<and> n \<le> 90) \<or> c = CHR ''.'' \<or> c = CHR ''-'')"

text \<open>
  The two patterns of the module are sequences of three kinds of item: a greedy
  \<open>[class]+\<close>, a greedy optional literal \<open>c?\<close>, and a literal \<open>c\<close>.
\<close>

datatype item = Plus "char \<Rightarrow> bool" | Opt char | Lit char

type_synonym regex = "item list"

text \<open>
  \<open>match_here r s\<close> lists, in the order a backtracking matcher tries them, what is left
  of \<open>s\<close> after each way of matching \<open>r\<close> at the start of \<open>s\<close>. Greedy items try the
  longer match first.
\<close>

fun match_here :: "regex \<Rightarrow> string \<Rightarrow> string list" where
  "match_here [] s = [s]"
| "match_here (Lit c # r) [] = []"
| "match_here (Lit c # r) (x # xs) = (if x = c then match_here r xs else [])"
| "match_here (Opt c # r) [] = match_here r []"
| "match_here (Opt c # r) (x # xs) =
     (if x = c then match_here r xs @ match_here r (x # xs) else match_here r (x # xs))"
| "match_here (Plus p # r) [] = []"
| "match_here (Plus p # r) (x # xs) =
     (if p x then match_here (Plus p # r) xs @ match_here r xs else [])"

text \<open>\<open>re.search\<close> with a pattern that starts with \<open>^\<close>: the match, if any, is at offset 0.
  The result is \<open>res.group()\<close>, the matched text.\<close>

definition search_anchored :: "regex \<Rightarrow> string \<Rightarrow> string option" where
  "search_anchored r s =
     (case match_here r s of
        [] \<Rightarrow> None
      | rest # _ \<Rightarrow> Some (take (length s - length rest) s))"

text \<open>What the first way of matching leaves, if there is one.\<close>

definition first_rest :: "regex \<Rightarrow> string \<Rightarrow> string option" where
  "first_rest r s = (case match_here r s of [] \<Rightarrow> None | rest # _ \<Rightarrow> Some rest)"

text \<open>\<open>re.search\<close> without anchor: the leftmost offset at which the pattern matches.\<close>

fun search_re :: "regex \<Rightarrow> string \<Rightarrow> string option" where
  "search_re r [] = search_anchored r []"
| "search_re r (x # xs) =
     (case search_anchored r (x # xs) of
        Some m \<Rightarrow> Some m
      | None \<Rightarrow> search_re r xs)"

text \<open>\<open>^[a-zA-Z.-]+\.?[a-zA-Z.-]+\<close>\<close>

definition category_re :: regex where
  "category_re = [Plus is_cat_char, Opt (CHR ''.''), Plus is_cat_char]"

text \<open>\<open>\d+\.\d+\<close>\<close>

definition paper_id_re :: regex where
  "paper_id_re = [Plus is_digit, Lit (CHR ''.''), Plus is_digit]"

definition is_category :: "string \<Rightarrow> bool" where
  "is_category entry =
     (case search_anchored category_re entry of
        None \<Rightarrow> False
      | Some g \<Rightarrow> length g > 4)"

definition is_paper_id :: "string \<Rightarrow> bool" where
  "is_paper_id entry = (search_re paper_id_re entry \<noteq> None)"

text \<open>\<open>sep.join(xs)\<close>\<close>

fun join :: "string \<Rightarrow> string list \<Rightarrow> string" where
  "join sep [] = []"
| "join sep [x] = x"
| "join sep (x # y # ys) = x @ sep @ join sep (y # ys)"

text \<open>\<open>s.split(sep)\<close> for a one-character separator: every occurrence of the separator
  ends a word, so consecutive separators give empty words and the empty string gives
  one empty word.\<close>

fun split_from :: "char \<Rightarrow> string \<Rightarrow> string \<Rightarrow> string list" where
  "split_from sep cur [] = [cur]"
| "split_from sep cur (x # xs) =
     (if x = sep then cur # split_from sep [] xs else split_from sep (cur @ [x]) xs)"

definition split :: "string \<Rightarrow> char \<Rightarrow> string list" where
  "split s sep = split_from sep [] s"

text \<open>\<open>str(n)\<close> for an integer.\<close>

definition digit_char :: "nat \<Rightarrow> char" where
  "digit_char d = char_of (48 + d)"

fun str_nat :: "nat \<Rightarrow> string" where
  "str_nat n = (if n < 10 then [digit_char n] else str_nat (n div 10) @ [digit_char (n mod 10)])"

definition str_int :: "int \<Rightarrow> string" where
  "str_int i = (if i < 0 then CHR ''-'' # str_nat (nat (- i)) else str_nat (nat i))"

section \<open>The search request\<close>

text \<open>Every exception of the module is a \<open>RuntimeError\<close>; the constructors tell the
  three messages apart and carry the value the message prints.\<close>

datatype error =
    Unrecognized_list_input "string list"
  | Unknown_sorting_type string
  | Unknown_ordering string

text \<open>The argument of \<open>Search\<close> is a list of strings or a string.\<close>

datatype search_arg = Lst "string list" | Str string

record search =
  search_query :: string
  id_list :: string

definition base_url :: string where
  "base_url = ''http://export.arxiv.org/api/query?''"

definition Search :: "search_arg \<Rightarrow> error + search" where
  "Search arg =
     (case arg of
        Lst xs \<Rightarrow>
          if list_all is_category xs then
            Inr \<lparr>search_query = join ''+OR+'' (map (\<lambda>c. ''cat:'' @ c) xs), id_list = ''''\<rparr>
          else if list_all is_paper_id xs then
            Inr \<lparr>search_query = '''', id_list = join '','' xs\<rparr>
          else Inl (Unrecognized_list_input xs)
      | Str s \<Rightarrow>
          if is_category s then Inr \<lparr>search_query = ''cat:'' @ s, id_list = ''''\<rparr>
          else if is_paper_id s then Inr \<lparr>search_query = '''', id_list = s\<rparr>
          else Inr \<lparr>search_query = s, id_list = ''''\<rparr>)"

definition FromSubject :: "string \<Rightarrow> error + search" where
  "FromSubject subject =
     Search (Str (join ''+AND+'' (map (\<lambda>p. ''all:'' @ p) (split subject (CHR '' '')))))"

definition FromPaper :: "string \<Rightarrow> string option \<Rightarrow> error + search" where
  "FromPaper ttl author =
     (let s = ''ti:'' @ ttl;
          s' = (case author of None \<Rightarrow> s | Some a \<Rightarrow> s @ ''+AND+au:'' @ a)
      in Search (Str s'))"

text \<open>
  The spec's wording of \<open>FromSubject\<close>, for comparison with the code: the subject is
  split on whitespace, so the words are its maximal runs of non-whitespace characters,
  each word becomes \<open>all:<word>\<close>, the words are AND-joined into the query, and the
  identifier list is left empty.
\<close>

definition is_whitespace :: "char \<Rightarrow> bool" where
  "is_whitespace c = (c \<in> set [CHR '' '', CHR 0x09, CHR 0x0A, CHR 0x0B, CHR 0x0C, CHR 0x0D])"

fun words_from :: "string \<Rightarrow> string \<Rightarrow> string list" where
  "words_from cur [] = (if cur = [] then [] else [cur])"
| "words_from cur (x # xs) =
     (if is_whitespace x
      then (if cur = [] then words_from [] xs else cur # words_from [] xs)
      else words_from (cur @ [x]) xs)"

definition split_whitespace :: "string \<Rightarrow> string list" where
  "split_whitespace s = words_from [] s"

definition FromSubject_spec :: "string \<Rightarrow> search" where
  "FromSubject_spec subject =
     \<lparr>search_query = join ''+AND+'' (map (\<lambda>p. ''all:'' @ p) (split_whitespace subject)),
      id_list = ''''\<rparr>"

definition Finalize :: "search \<Rightarrow> int \<Rightarrow> int \<Rightarrow> string \<Rightarrow> string \<Rightarrow> error + string" where
  "Finalize self start max_results sort_by sort_order =
     (if sort_by \<notin> set [''relevance'', ''lastUpdatedDate'', ''submittedDate''] then
        Inl (Unknown_sorting_type sort_by)
      else if sort_order \<notin> set [''ascending'', ''descending''] then
        Inl (Unknown_ordering sort_order)
      else
        Inr (base_url @
             ''search_query='' @ search_query self @ ''&'' @
             ''id_list='' @ id_list self @ ''&'' @
             ''start='' @ str_int start @ ''&'' @
             ''max_results='' @ str_int max_results @ ''&'' @
             ''sortBy='' @ sort_by @ ''&'' @
             ''sortOrder='' @ sort_order))"

section \<open>Dates\<close>

text \<open>
  A \<open>datetime.date\<close> is modelled by its proleptic Gregorian ordinal (\<open>toordinal()\<close>:
  day 1 is 0001-01-01, a Monday). \<open>weekday()\<close> is 0 on Mondays, and subtracting
  \<open>timedelta(n)\<close> subtracts \<open>n\<close> from the ordinal. \<open>date.today()\<close> reads the clock, so
  the dates that occur are far from the ends of the range of the date type.
\<close>

type_synonym pydate = int

definition weekday :: "pydate \<Rightarrow> int" where
  "weekday d = (d + 6) mod 7"

definition minus_timedelta :: "pydate \<Rightarrow> int \<Rightarrow> pydate" where
  "minus_timedelta d n = d - n"

definition is_leap :: "int \<Rightarrow> bool" where
  "is_leap y = (y mod 4 = 0 \<and> (y mod 100 \<noteq> 0 \<or> y mod 400 = 0))"

definition days_in_months :: "int \<Rightarrow> int list" where
  "days_in_months y = [31, if is_leap y then 29 else 28, 31, 30, 31, 30, 31, 31, 30, 31, 30, 31]"

text \<open>Year and zero-based day of the year of an ordinal.\<close>

definition ord2yd :: "pydate \<Rightarrow> int \<times> int" where
  "ord2yd d =
     (let n = d - 1;
          n400 = n div 146097; n = n mod 146097;
          n100 = n div 36524; n = n mod 36524;
          n4 = n div 1461; n = n mod 1461;
          n1 = n div 365; n = n mod 365;
          y = n400 * 400 + 1 + n100 * 100 + n4 * 4 + n1
      in if n1 = 4 \<or> n100 = 4 then (y - 1, 365) else (y, n))"

text \<open>Month (from 1) and day of the month (from 1) of a zero-based day of the year.\<close>

fun month_day :: "int list \<Rightarrow> int \<Rightarrow> int \<Rightarrow> int \<times> int" where
  "month_day [] m n = (m, n + 1)"
| "month_day (l # ls) m n = (if n < l then (m, n + 1) else month_day ls (m + 1) (n - l))"

definition ord2ymd :: "pydate \<Rightarrow> int \<times> int \<times> int" where
  "ord2ymd d = (case ord2yd d of (y, n) \<Rightarrow> (y, month_day (days_in_months y) 1 n))"

definition zfill :: "nat \<Rightarrow> string \<Rightarrow> string" where
  "zfill w s = replicate (w - length s) (CHR ''0'') @ s"

text \<open>\<open>d.strftime('%Y-%m-%d')\<close>: the year as the C library prints it, without padding,
  month and day on two digits.\<close>

definition strftime_ymd :: "pydate \<Rightarrow> string" where
  "strftime_ymd d =
     (case ord2ymd d of (y, m, dd) \<Rightarrow>
        str_int y @ ''-'' @ zfill 2 (str_int m) @ ''-'' @ zfill 2 (str_int dd))"

text \<open>Lines 223 to 227 of \<open>_query_daily_paper\<close>: the submission date looked for.\<close>

definition submitted_date :: "pydate \<Rightarrow> pydate" where
  "submitted_date today =
     (if weekday today = 0 then minus_timedelta today 3 else minus_timedelta today 1)"

section \<open>The daily query\<close>

text \<open>A feed entry; \<open>date\<close> is absent when the entry has no such key.\<close>

record entry =
  title :: string
  authors :: "string list"
  summary :: string
  link :: string
  date :: "string option"

text \<open>\<open>entry.get('date', '')\<close>\<close>

definition get_date :: "entry \<Rightarrow> string" where
  "get_date e = (case date e of None \<Rightarrow> [] | Some d \<Rightarrow> d)"

text \<open>What \<open>parse\<close> returns: \<open>status\<close> is absent when the request got no HTTP answer.\<close>

record response =
  status :: "int option"
  entries :: "entry list"

text \<open>The effects of the loop, in the order they happen: a request sent, one of the
  two messages printed, a pause (its length, \<open>wait_time\<close> plus a random part, is left
  out).\<close>

datatype event =
    Request string
  | Print_HTTP_Error "int option"
  | Print_No_more_fetch
  | Sleep

text \<open>The local variables of \<open>_query_daily_paper\<close>, the effects so far, and the state
  of the outside world that answers the requests.\<close>

record 'w state =
  articles :: "entry list"
  n_left :: int
  n_start :: int
  trace :: "event list"
  world :: 'w

text \<open>\<open>submitted_date_str in date\<close>: the date text of the entry contains the target
  date.\<close>

abbreviation on_date :: "string \<Rightarrow> entry \<Rightarrow> bool" where
  "on_date d e \<equiv> sublist d (get_date e)"

text \<open>The \<open>for\<close> loop over the entries of a page (lines 246 to 252), on the two
  variables it writes.\<close>

fun scan_entries :: "string \<Rightarrow> entry list \<Rightarrow> entry list \<times> int \<Rightarrow> entry list \<times> int" where
  "scan_entries d [] (arts, n) = (arts, n)"
| "scan_entries d (e # es) (arts, n) =
     (if on_date d e then scan_entries d es (arts @ [e], n) else (arts, 0))"

datatype 'w outcome = Continue "'w state" | Break "'w state" | Raise error

text \<open>One pass through the body of the \<open>while\<close> loop (lines 230 to 255).\<close>

definition body ::
  "(string \<Rightarrow> 'w \<Rightarrow> response \<times> 'w) \<Rightarrow> search_arg \<Rightarrow> int \<Rightarrow> string \<Rightarrow> 'w state \<Rightarrow> 'w outcome" where
  "body parse category res_per_iter submitted_date_str st =
     (case Search category of
        Inl err \<Rightarrow> Raise err
      | Inr s \<Rightarrow>
     (case Finalize s (n_start st) res_per_iter ''submittedDate'' ''descending'' of
        Inl err \<Rightarrow> Raise err
      | Inr url \<Rightarrow>
     (case parse url (world st) of (res, w) \<Rightarrow>
        let st1 = st\<lparr>trace := trace st @ [Request url], world := w\<rparr>
        in if status res \<noteq> Some 200 then
             Break (st1\<lparr>trace := trace st1 @ [Print_HTTP_Error (status res)]\<rparr>)
           else
             let es = entries res;
                 st2 = st1\<lparr>n_left := n_left st1 - int (length es),
                           n_start := n_start st1 + int (length es)\<rparr>
             in if length es = 0 then
                  Break (st2\<lparr>trace := trace st2 @ [Print_No_more_fetch]\<rparr>)
                else
                  (case scan_entries submitted_date_str es (articles st2, n_left st2) of
                     (arts, n) \<Rightarrow>
                       let st3 = st2\<lparr>articles := arts, n_left := n\<rparr>
                       in Continue (if n_left st3 > res_per_iter
                                    then st3\<lparr>trace := trace st3 @ [Sleep]\<rparr> else st3)))))"

lemma scan_entries_n_left:
  "scan_entries d es (arts, n) = (arts', n') \<Longrightarrow> n' = n \<or> n' = 0"
  by (induction es arbitrary: arts) (auto split: if_splits)

lemma body_Continue_less:
  assumes "body parse category res_per_iter d st = Continue st'" and "0 < n_left st"
  shows "n_left st' < n_left st"
  using assms
  by (auto simp: body_def Let_def split: sum.splits prod.splits if_splits
           dest!: scan_entries_n_left)

function loop ::
  "(string \<Rightarrow> 'w \<Rightarrow> response \<times> 'w) \<Rightarrow> search_arg \<Rightarrow> int \<Rightarrow> string \<Rightarrow> 'w state \<Rightarrow> error + 'w state" where
  "loop parse category res_per_iter d st =
     (if 0 < n_left st then
        (case body parse category res_per_iter d st of
           Continue st' \<Rightarrow> loop parse category res_per_iter d st'
         | Break st' \<Rightarrow> Inr st'
         | Raise err \<Rightarrow> Inl err)
      else Inr st)"
  by pat_completeness auto
termination
  by (relation "measure (\<lambda>(parse, category, res_per_iter, d, st). nat (n_left st))")
     (auto dest: body_Continue_less)

declare loop.simps [simp del]

definition query_daily_paper ::
  "(string \<Rightarrow> 'w \<Rightarrow> response \<times> 'w) \<Rightarrow> search_arg \<Rightarrow> pydate \<Rightarrow> 'w \<Rightarrow> int \<Rightarrow> int \<Rightarrow> int
     \<Rightarrow> error + 'w state" where
  "query_daily_paper parse category today w start max_results res_per_iter =
     loop parse category res_per_iter (strftime_ymd (submitted_date today))
       \<lparr>articles = [], n_left = max_results, n_start = start, trace = [], world = w\<rparr>"

text \<open>\<open>run_daily_search\<close> asks for at most 200 entries from offset 0, in pages of 100.\<close>

definition daily_articles ::
  "(string \<Rightarrow> 'w \<Rightarrow> response \<times> 'w) \<Rightarrow> search_arg \<Rightarrow> pydate \<Rightarrow> 'w \<Rightarrow> error + 'w state" where
  "daily_articles parse category today w = query_daily_paper parse category today w 0 200 100"

subsection \<open>Feeds to run the query on\<close>

definition paper :: "string \<Rightarrow> string \<Rightarrow> entry" where
  "paper t d = \<lparr>title = t, authors = [], summary = '''', link = '''', date = Some d\<rparr>"

text \<open>A feed whose first answer is a page of three entries of 3 November 2026, one of
  2 November and one more of 3 November, and whose later answers are empty pages. The
  state of the world counts the requests.\<close>

definition boundary_page :: "entry list" where
  "boundary_page =
     [paper ''A'' ''2026-11-03T17:59:59Z'', paper ''B'' ''2026-11-03T17:58:00Z'',
      paper ''C'' ''2026-11-03T00:00:00Z'', paper ''D'' ''2026-11-02T23:59:59Z'',
      paper ''E'' ''2026-11-03T12:00:00Z'']"

definition boundary_feed :: "string \<Rightarrow> nat \<Rightarrow> response \<times> nat" where
  "boundary_feed url w =
     (if w = 0 then (\<lparr>status = Some 200, entries = boundary_page\<rparr>, 1)
      else (\<lparr>status = Some 200, entries = []\<rparr>, Suc w))"

text \<open>A feed whose first answer is a page of 100 entries of 3 November 2026 and whose
  later answers are empty pages.\<close>

definition full_page :: "entry list" where
  "full_page = replicate 100 (paper ''A'' ''2026-11-03T17:59:59Z'')"

definition two_page_feed :: "string \<Rightarrow> nat \<Rightarrow> response \<times> nat" where
  "two_page_feed url w =
     (if w = 0 then (\<lparr>status = Some 200, entries = full_page\<rparr>, 1)
      else (\<lparr>status = Some 200, entries = []\<rparr>, Suc w))"

text \<open>A feed whose first answer is a page of three entries, all of 3 November 2026,
  whatever the page size asked for.\<close>

definition short_page :: "entry list" where
  "short_page =
     [paper ''A'' ''2026-11-03T17:59:59Z'', paper ''B'' ''2026-11-03T17:58:00Z'',
      paper ''C'' ''2026-11-03T00:00:00Z'']"

definition short_feed :: "string \<Rightarrow> nat \<Rightarrow> response \<times> nat" where
  "short_feed url w =
     (if w = 0 then (\<lparr>status = Some 200, entries = short_page\<rparr>, 1)
      else (\<lparr>status = Some 200, entries = []\<rparr>, Suc w))"

text \<open>A feed that answers every request with status 503.\<close>

definition failing_feed :: "string \<Rightarrow> nat \<Rightarrow> response \<times> nat" where
  "failing_feed url w = (\<lparr>status = Some 503, entries = []\<rparr>, Suc w)"

text \<open>The request for \<open>cs.CV\<close> from a given offset, in pages of 100.\<close>

definition cs_CV_url :: "string \<Rightarrow> string" where
  "cs_CV_url offset =
     ''http://export.arxiv.org/api/query?search_query=cat:cs.CV&id_list=&start='' @ offset @
     ''&max_results=100&sortBy=submittedDate&sortOrder=descending''"

section \<open>What the category pattern accepts\<close>

text \<open>The first match of the category pattern is the whole leading run of letters,
  dots and hyphens, when that run has at least two characters.\<close>

lemma first_rest_append:
  "(case xs @ ys of [] \<Rightarrow> None | r # _ \<Rightarrow> Some r) =
   (case xs of [] \<Rightarrow> (case ys of [] \<Rightarrow> None | r # _ \<Rightarrow> Some r) | r # _ \<Rightarrow> Some r)"
  by (cases xs) simp_all

lemma first_rest_Plus:
  "first_rest [Plus p] s = (if s \<noteq> [] \<and> p (hd s) then Some (dropWhile p s) else None)"
proof (induction s)
  case Nil
  show ?case by (simp add: first_rest_def)
next
  case (Cons x xs)
  show ?case
  proof (cases "p x")
    case False
    then show ?thesis by (simp add: first_rest_def)
  next
    case True
    have "first_rest [Plus p] (x # xs) =
          (case first_rest [Plus p] xs of None \<Rightarrow> Some xs | Some r \<Rightarrow> Some r)"
      using True by (simp add: first_rest_def first_rest_append split: list.splits)
    also have "\<dots> = Some (dropWhile p xs)"
      unfolding Cons.IH by (cases xs) auto
    finally show ?thesis using True by simp
  qed
qed

lemma first_rest_Opt_Plus:
  assumes "p c"
  shows "first_rest [Opt c, Plus p] s = (if s \<noteq> [] \<and> p (hd s) then Some (dropWhile p s) else None)"
proof (cases s)
  case Nil
  then show ?thesis by (simp add: first_rest_def)
next
  case (Cons x xs)
  show ?thesis
  proof (cases "x = c")
    case False
    then have "first_rest [Opt c, Plus p] s = first_rest [Plus p] s"
      using Cons by (simp add: first_rest_def)
    then show ?thesis by (simp add: first_rest_Plus)
  next
    case True
    have "first_rest [Opt c, Plus p] s =
          (case first_rest [Plus p] xs of None \<Rightarrow> first_rest [Plus p] s | Some r \<Rightarrow> Some r)"
      using True Cons by (simp add: first_rest_def first_rest_append split: list.splits)
    also have "\<dots> = Some (dropWhile p s)"
      using True Cons assms by (cases xs) (auto simp: first_rest_Plus)
    finally show ?thesis using True Cons assms by simp
  qed
qed

lemma first_rest_Plus_Opt_Plus:
  assumes "p c"
  shows "first_rest [Plus p, Opt c, Plus p] s =
         (if 2 \<le> length (takeWhile p s) then Some (dropWhile p s) else None)"
proof (induction s)
  case Nil
  show ?case by (simp add: first_rest_def)
next
  case (Cons x xs)
  show ?case
  proof (cases "p x")
    case False
    then show ?thesis by (simp add: first_rest_def)
  next
    case True
    have "first_rest [Plus p, Opt c, Plus p] (x # xs) =
          (case first_rest [Plus p, Opt c, Plus p] xs of
             None \<Rightarrow> first_rest [Opt c, Plus p] xs | Some r \<Rightarrow> Some r)"
      using True by (simp add: first_rest_def first_rest_append split: list.splits)
    also have "\<dots> = (if 1 \<le> length (takeWhile p xs) then Some (dropWhile p xs) else None)"
    proof -
      note opt = first_rest_Opt_Plus [of p c xs, OF assms]
      show ?thesis unfolding Cons.IH opt by (cases xs) auto
    qed
    finally show ?thesis using True by simp
  qed
qed

lemma search_anchored_first_rest:
  "search_anchored r s =
     (case first_rest r s of None \<Rightarrow> None | Some rest \<Rightarrow> Some (take (length s - length rest) s))"
  by (simp add: search_anchored_def first_rest_def split: list.splits)

lemma take_length_dropWhile: "take (length s - length (dropWhile p s)) s = takeWhile p s"
proof -
  have "length s - length (dropWhile p s) = length (takeWhile p s)"
    by (metis add_diff_cancel_right' length_append takeWhile_dropWhile_id)
  then show ?thesis
    by (metis append_eq_conv_conj takeWhile_dropWhile_id)
qed

lemma search_anchored_category:
  "search_anchored category_re s =
     (if 2 \<le> length (takeWhile is_cat_char s) then Some (takeWhile is_cat_char s) else None)"
proof -
  have "is_cat_char (CHR ''.'')" by (simp add: is_cat_char_def)
  then show ?thesis
    by (simp add: search_anchored_first_rest category_re_def first_rest_Plus_Opt_Plus
        take_length_dropWhile)
qed

lemma is_category_iff: "is_category s \<longleftrightarrow> 4 < length (takeWhile is_cat_char s)"
  by (simp add: is_category_def search_anchored_category)

lemma is_category_nonempty: "is_category s \<Longrightarrow> s \<noteq> []"
  by (auto simp: is_category_iff)

lemma is_paper_id_nonempty: "is_paper_id s \<Longrightarrow> s \<noteq> []"
  by (auto simp: is_paper_id_def paper_id_re_def search_anchored_def)

lemma not_category_all: "\<not> is_category (''all:'' @ s)"
  by (simp add: is_category_iff is_cat_char_def)

lemma not_category_ti: "\<not> is_category (''ti:'' @ s)"
  by (simp add: is_category_iff is_cat_char_def)

section \<open>Joining and splitting\<close>

lemma join_hd_tl:
  "ys \<noteq> [] \<Longrightarrow> join sep ys = hd ys @ concat (map (\<lambda>c. sep @ c) (tl ys))"
  by (induction sep ys rule: join.induct) auto

lemma join_map_hd_tl:
  "xs \<noteq> [] \<Longrightarrow> join sep (map f xs) = f (hd xs) @ concat (map (\<lambda>c. sep @ f c) (tl xs))"
  by (simp add: join_hd_tl hd_map map_tl [symmetric] comp_def)

lemma split_from_nonempty: "split_from sep cur s \<noteq> []"
  by (induction s arbitrary: cur) auto

lemma split_nonempty: "split s sep \<noteq> []"
  by (simp add: split_def split_from_nonempty)

lemma split_from_join: "join [sep] (split_from sep cur s) = cur @ s"
proof (induction s arbitrary: cur)
  case Nil
  show ?case by simp
next
  case (Cons x xs)
  show ?case
  proof (cases "x = sep")
    case True
    obtain w ws where "split_from sep [] xs = w # ws"
      using split_from_nonempty [of sep "[]" xs] by (cases "split_from sep [] xs") auto
    moreover have "join [sep] (split_from sep [] xs) = xs" using Cons.IH [of "[]"] by simp
    ultimately show ?thesis using True by simp
  next
    case False
    then show ?thesis using Cons.IH [of "cur @ [x]"] by simp
  qed
qed

lemma split_join: "join [sep] (split s sep) = s"
  by (simp add: split_def split_from_join)

lemma split_from_no_sep:
  "sep \<notin> set cur \<Longrightarrow> w \<in> set (split_from sep cur s) \<Longrightarrow> sep \<notin> set w"
proof (induction s arbitrary: cur)
  case Nil
  then show ?case by simp
next
  case (Cons x xs)
  show ?case
  proof (cases "x = sep")
    case True
    with Cons.prems have "w = cur \<or> w \<in> set (split_from sep [] xs)" by simp
    then show ?thesis using Cons.prems(1) Cons.IH [of "[]"] by auto
  next
    case False
    with Cons.prems have "w \<in> set (split_from sep (cur @ [x]) xs)" by simp
    moreover have "sep \<notin> set (cur @ [x])" using False Cons.prems(1) by auto
    ultimately show ?thesis by (rule Cons.IH [rotated])
  qed
qed

lemma split_no_sep: "w \<in> set (split s sep) \<Longrightarrow> sep \<notin> set w"
  using split_from_no_sep [of sep "[]" w s] by (simp add: split_def)

lemma finalize_default_ok:
  "Finalize sp a b ''submittedDate'' ''descending'' =
     Inr (base_url @ ''search_query='' @ search_query sp @ ''&id_list='' @ id_list sp @
          ''&start='' @ str_int a @ ''&max_results='' @ str_int b @
          ''&sortBy=submittedDate&sortOrder=descending'')"
  by (simp add: Finalize_def)

section \<open>The target date\<close>

text \<open>
  C3. For every date \<open>today\<close>, the submission date looked for is three days before
  \<open>today\<close> when \<open>today\<close> is a Monday (\<open>weekday() == 0\<close>), and one day before
  \<open>today\<close> on every other day of the week.
\<close>

theorem submitted_date_monday_rule:
  "(weekday today = 0 \<longrightarrow> submitted_date today = today - 3) \<and>
   (weekday today \<noteq> 0 \<longrightarrow> submitted_date today = today - 1)"
  by (simp add: submitted_date_def minus_timedelta_def)

text \<open>Monday 2026-11-02 (ordinal 739922) gives Friday 2026-10-30, and Wednesday
  2026-11-04 gives Tuesday 2026-11-03.\<close>

theorem submitted_date_monday_rule_witness:
  "weekday 739922 = 0 \<and> submitted_date 739922 = 739919 \<and>
   strftime_ymd (submitted_date 739922) = ''2026-10-30'' \<and>
   weekday 739924 \<noteq> 0 \<and> submitted_date 739924 = 739923 \<and>
   strftime_ymd (submitted_date 739924) = ''2026-11-03''"
proof -
  have mon: "weekday 739922 = 0" and wed: "weekday 739924 \<noteq> 0"
    by (simp_all add: weekday_def)
  have a: "submitted_date 739922 = 739919"
    using submitted_date_monday_rule [of 739922] mon by simp
  have b: "submitted_date 739924 = 739923"
    using submitted_date_monday_rule [of 739924] wed by simp
  have c: "strftime_ymd 739919 = ''2026-10-30''" by code_simp
  have d: "strftime_ymd 739923 = ''2026-11-03''" by code_simp
  show ?thesis using mon wed a b c d by simp
qed

section \<open>Classification of a single token\<close>

text \<open>
  C10. A single string token that the category pattern accepts (\<open>_is_category\<close>) and
  that also contains a \<open>digits.digits\<close> substring (\<open>_is_paper_id\<close>) is treated as a
  category: the query is \<open>cat:<token>\<close> and the identifier list stays empty. The
  category test comes first. The category pattern accepts a token exactly when its
  leading run of letters, dots and hyphens is longer than 4.
\<close>

theorem Search_category_before_paper_id:
  "(is_category tok \<longleftrightarrow> 4 < length (takeWhile is_cat_char tok)) \<and>
   (is_category tok \<and> is_paper_id tok \<longrightarrow>
      Search (Str tok) = Inr \<lparr>search_query = ''cat:'' @ tok, id_list = ''''\<rparr>)"
  by (simp add: Search_def is_category_iff)

theorem Search_category_before_paper_id_witness:
  "is_category ''arXiv.2101.00001'' \<and> is_paper_id ''arXiv.2101.00001'' \<and>
   Search (Str ''arXiv.2101.00001'') =
     Inr \<lparr>search_query = ''cat:arXiv.2101.00001'', id_list = ''''\<rparr>"
proof -
  have c: "is_category ''arXiv.2101.00001''" by code_simp
  have p: "is_paper_id ''arXiv.2101.00001''" by code_simp
  show ?thesis
    using Search_category_before_paper_id [of "''arXiv.2101.00001''"] c p by simp
qed

section \<open>Lists of tokens\<close>

text \<open>
  C4 (as amended). On a list, the \<open>Search\<close> constructor fails exactly when the tokens
  are not all categories and not all paper identifiers, whatever their number, and the
  error is the \<open>RuntimeError\<close> that reports the unrecognised list. On a string it
  never fails: a string that is neither a category nor a paper identifier becomes the
  query verbatim (the raw-query fallback).
\<close>

theorem Search_list_fails_iff:
  "((\<exists>err. Search (Lst xs) = Inl err) \<longleftrightarrow>
      \<not> list_all is_category xs \<and> \<not> list_all is_paper_id xs) \<and>
   (\<not> list_all is_category xs \<and> \<not> list_all is_paper_id xs \<longrightarrow>
      Search (Lst xs) = Inl (Unrecognized_list_input xs)) \<and>
   (\<exists>sp. Search (Str s) = Inr sp) \<and>
   (\<not> is_category s \<and> \<not> is_paper_id s \<longrightarrow>
      Search (Str s) = Inr \<lparr>search_query = s, id_list = ''''\<rparr>)"
  by (simp add: Search_def)

theorem Search_list_fails_iff_witness:
  "Search (Lst [''cs.CV'', ''2101.00001'']) = Inl (Unrecognized_list_input [''cs.CV'', ''2101.00001'']) \<and>
   Search (Str ''deep learning'') = Inr \<lparr>search_query = ''deep learning'', id_list = ''''\<rparr>"
proof -
  have a: "\<not> list_all is_category [''cs.CV'', ''2101.00001'']" by code_simp
  have b: "\<not> list_all is_paper_id [''cs.CV'', ''2101.00001'']" by code_simp
  have c: "\<not> is_category ''deep learning''" by code_simp
  have d: "\<not> is_paper_id ''deep learning''" by code_simp
  show ?thesis
    using Search_list_fails_iff [of "[''cs.CV'', ''2101.00001'']" "''deep learning''"] a b c d
    by simp
qed

text \<open>The claim as stated lets a list fail only when it has more than one token. A
  list of one free-text token fails.\<close>

theorem Search_single_token_list_counterexample:
  "Search (Lst [''foo'']) = Inl (Unrecognized_list_input [''foo'']) \<and> \<not> 1 < length [''foo'']"
  by code_simp

text \<open>
  C5 (as amended). For every list of two or more category tokens, the query is the
  tokens in the given order, each prefixed with \<open>cat:\<close>, joined with the separator
  \<open>+OR+\<close>, and the identifier list is empty.
\<close>

theorem Search_categories_OR_joined:
  "2 \<le> length xs \<and> list_all is_category xs \<longrightarrow>
     Search (Lst xs) =
       Inr \<lparr>search_query = ''cat:'' @ hd xs @ concat (map (\<lambda>c. ''+OR+cat:'' @ c) (tl xs)),
            id_list = ''''\<rparr>"
proof (intro impI, elim conjE)
  assume len: "2 \<le> length xs" and cat: "list_all is_category xs"
  from len have "xs \<noteq> []" by auto
  then have eq: "join ''+OR+'' (map (\<lambda>c. ''cat:'' @ c) xs) =
             ''cat:'' @ hd xs @ concat (map (\<lambda>c. ''+OR+cat:'' @ c) (tl xs))"
    by (simp add: join_map_hd_tl)
  show "Search (Lst xs) =
       Inr \<lparr>search_query = ''cat:'' @ hd xs @ concat (map (\<lambda>c. ''+OR+cat:'' @ c) (tl xs)),
            id_list = ''''\<rparr>"
    unfolding Search_def eq [symmetric] using cat by simp
qed

theorem Search_categories_OR_joined_witness:
  "Search (Lst [''cs.CV'', ''cs.AI'']) =
     Inr \<lparr>search_query = ''cat:cs.CV+OR+cat:cs.AI'', id_list = ''''\<rparr>"
proof -
  have a: "list_all is_category [''cs.CV'', ''cs.AI'']" by code_simp
  show ?thesis using Search_categories_OR_joined [of "[''cs.CV'', ''cs.AI'']"] a by simp
qed

text \<open>The claim as stated has the separator \<open> OR \<close> with spaces.\<close>

theorem Search_categories_separator_counterexample:
  "Search (Lst [''cs.CV'', ''cs.AI'']) \<noteq>
     Inr \<lparr>search_query = ''cat:cs.CV OR cat:cs.AI'', id_list = ''''\<rparr>"
  by code_simp

section \<open>The request string\<close>

text \<open>
  C6 (as amended). \<open>Finalize\<close> fails exactly when \<open>sort_by\<close> is not one of the
  strings \<open>relevance\<close>, \<open>lastUpdatedDate\<close>, \<open>submittedDate\<close> or \<open>sort_order\<close> is
  not one of \<open>ascending\<close>, \<open>descending\<close>; \<open>sort_by\<close> is checked first. When it
  succeeds the result is the base URL followed by the six fields, empty or not, in the
  order \<open>search_query\<close>, \<open>id_list\<close>, \<open>start\<close>, \<open>max_results\<close>, \<open>sortBy\<close>,
  \<open>sortOrder\<close>, with \<open>sort_by\<close> and \<open>sort_order\<close> as given.
\<close>

theorem Finalize_fails_iff:
  "((\<exists>err. Finalize sp start max_results sort_by sort_order = Inl err) \<longleftrightarrow>
      sort_by \<notin> {''relevance'', ''lastUpdatedDate'', ''submittedDate''} \<or>
      sort_order \<notin> {''ascending'', ''descending''}) \<and>
   (sort_by \<notin> {''relevance'', ''lastUpdatedDate'', ''submittedDate''} \<longrightarrow>
      Finalize sp start max_results sort_by sort_order = Inl (Unknown_sorting_type sort_by)) \<and>
   (sort_by \<in> {''relevance'', ''lastUpdatedDate'', ''submittedDate''} \<and>
    sort_order \<notin> {''ascending'', ''descending''} \<longrightarrow>
      Finalize sp start max_results sort_by sort_order = Inl (Unknown_ordering sort_order)) \<and>
   (sort_by \<in> {''relevance'', ''lastUpdatedDate'', ''submittedDate''} \<and>
    sort_order \<in> {''ascending'', ''descending''} \<longrightarrow>
      Finalize sp start max_results sort_by sort_order =
        Inr (base_url @ ''search_query='' @ search_query sp @ ''&id_list='' @ id_list sp @
             ''&start='' @ str_int start @ ''&max_results='' @ str_int max_results @
             ''&sortBy='' @ sort_by @ ''&sortOrder='' @ sort_order))"
  by (auto simp: Finalize_def)

theorem Finalize_fails_iff_witness:
  "Finalize \<lparr>search_query = ''cat:cs.CV'', id_list = ''''\<rparr> 0 25 ''relevance'' ''ascending'' =
     Inr ''http://export.arxiv.org/api/query?search_query=cat:cs.CV&id_list=&start=0&max_results=25&sortBy=relevance&sortOrder=ascending'' \<and>
   Finalize \<lparr>search_query = ''cat:cs.CV'', id_list = ''''\<rparr> 0 25 ''bogus'' ''ascending'' =
     Inl (Unknown_sorting_type ''bogus'') \<and>
   Finalize \<lparr>search_query = ''cat:cs.CV'', id_list = ''''\<rparr> 0 25 ''relevance'' ''up'' =
     Inl (Unknown_ordering ''up'')"
proof -
  have n0: "str_int 0 = ''0''" and n25: "str_int 25 = ''25''" by code_simp+
  show ?thesis
    using Finalize_fails_iff [of "\<lparr>search_query = ''cat:cs.CV'', id_list = ''''\<rparr>" 0 25 "''relevance''" "''ascending''"]
      Finalize_fails_iff [of "\<lparr>search_query = ''cat:cs.CV'', id_list = ''''\<rparr>" 0 25 "''bogus''" "''ascending''"]
      Finalize_fails_iff [of "\<lparr>search_query = ''cat:cs.CV'', id_list = ''''\<rparr>" 0 25 "''relevance''" "''up''"]
    by (simp add: n0 n25 base_url_def)
qed

text \<open>The names \<open>submitted\<close> and \<open>last-updated\<close> of the claim are rejected.\<close>

theorem Finalize_spec_names_counterexample:
  "Finalize \<lparr>search_query = ''cat:cs.CV'', id_list = ''''\<rparr> 0 25 ''submitted'' ''descending'' =
     Inl (Unknown_sorting_type ''submitted'') \<and>
   Finalize \<lparr>search_query = ''cat:cs.CV'', id_list = ''''\<rparr> 0 25 ''last-updated'' ''descending'' =
     Inl (Unknown_sorting_type ''last-updated'')"
  by (simp add: Finalize_def)

section \<open>Which field of a built search is populated\<close>

lemma Search_Lst_populated:
  assumes "Search (Lst xs) = Inr sp" and "xs \<noteq> []"
  shows "search_query sp = [] \<longleftrightarrow> id_list sp \<noteq> []"
proof (cases "list_all is_category xs")
  case True
  have ne: "join ''+OR+'' (map (\<lambda>c. ''cat:'' @ c) xs) \<noteq> []"
    using assms(2) by (simp add: join_map_hd_tl)
  from True have "Search (Lst xs) =
      Inr \<lparr>search_query = join ''+OR+'' (map (\<lambda>c. ''cat:'' @ c) xs), id_list = []\<rparr>"
    unfolding Search_def by (simp only: search_arg.case if_True)
  with assms(1) have "sp = \<lparr>search_query = join ''+OR+'' (map (\<lambda>c. ''cat:'' @ c) xs), id_list = []\<rparr>"
    by (simp only: sum.inject)
  then show ?thesis by (simp only: search.select_convs ne simp_thms)
next
  case False
  with assms(1) have ids: "list_all is_paper_id xs" and sp: "sp = \<lparr>search_query = '''', id_list = join '','' xs\<rparr>"
    by (auto simp: Search_def split: if_splits)
  from ids assms(2) have "is_paper_id (hd xs)" by (cases xs) auto
  then have "hd xs \<noteq> []" by (rule is_paper_id_nonempty)
  with assms(2) have "join '','' xs \<noteq> []" by (simp add: join_hd_tl)
  with sp show ?thesis by simp
qed

lemma Search_Str_populated:
  assumes "Search (Str s) = Inr sp" and "s \<noteq> []"
  shows "search_query sp = [] \<longleftrightarrow> id_list sp \<noteq> []"
  using assms by (auto simp: Search_def split: if_splits)

lemma Search_not_both:
  assumes "Search arg = Inr sp"
  shows "search_query sp = [] \<or> id_list sp = []"
  using assms by (cases arg) (auto simp: Search_def split: if_splits)

lemma Search_Str_not_category:
  "\<not> is_category s \<Longrightarrow>
     Search (Str s) = Inr (if is_paper_id s then \<lparr>search_query = '''', id_list = s\<rparr>
                           else \<lparr>search_query = s, id_list = ''''\<rparr>)"
  by (simp add: Search_def)

lemma subject_query_all:
  "join ''+AND+'' (map (\<lambda>p. ''all:'' @ p) (split subject (CHR '' ''))) =
     ''all:'' @ hd (split subject (CHR '' '')) @
       concat (map (\<lambda>p. ''+AND+all:'' @ p) (tl (split subject (CHR '' ''))))"
  using split_nonempty [of subject "CHR '' ''"] by (simp add: join_map_hd_tl)

text \<open>
  C8 (as amended). Whenever the \<open>Search\<close> constructor succeeds, the query and the
  identifier list are never both non-empty. Exactly one of them is populated unless
  the input is the empty string or the empty list, for which the constructor succeeds
  with both fields empty. \<open>FromSubject\<close> and \<open>FromPaper\<close> always succeed, with exactly
  one field populated.
\<close>

theorem Search_fields_not_both:
  "(Search arg = Inr sp \<longrightarrow> search_query sp = [] \<or> id_list sp = []) \<and>
   (Search arg = Inr sp \<and> arg \<noteq> Str [] \<and> arg \<noteq> Lst [] \<longrightarrow>
      (search_query sp = [] \<longleftrightarrow> id_list sp \<noteq> [])) \<and>
   (\<exists>sp'. FromSubject subject = Inr sp' \<and> (search_query sp' = [] \<longleftrightarrow> id_list sp' \<noteq> [])) \<and>
   (\<exists>sp'. FromPaper ttl author = Inr sp' \<and> (search_query sp' = [] \<longleftrightarrow> id_list sp' \<noteq> []))"
proof (intro conjI impI)
  assume "Search arg = Inr sp"
  then show "search_query sp = [] \<or> id_list sp = []" by (rule Search_not_both)
next
  assume a: "Search arg = Inr sp \<and> arg \<noteq> Str [] \<and> arg \<noteq> Lst []"
  show "search_query sp = [] \<longleftrightarrow> id_list sp \<noteq> []"
  proof (cases arg)
    case (Lst xs)
    with a show ?thesis using Search_Lst_populated [of xs sp] by simp
  next
    case (Str s)
    with a show ?thesis using Search_Str_populated [of s sp] by simp
  qed
next
  let ?q = "join ''+AND+'' (map (\<lambda>p. ''all:'' @ p) (split subject (CHR '' '')))"
  have q: "?q = ''all:'' @ hd (split subject (CHR '' '')) @
       concat (map (\<lambda>p. ''+AND+all:'' @ p) (tl (split subject (CHR '' ''))))"
    by (rule subject_query_all)
  have nc: "\<not> is_category ?q" unfolding q by (rule not_category_all)
  have ne: "?q \<noteq> []" unfolding q by simp
  show "\<exists>sp'. FromSubject subject = Inr sp' \<and> (search_query sp' = [] \<longleftrightarrow> id_list sp' \<noteq> [])"
    unfolding FromSubject_def Search_Str_not_category [OF nc]
    by (cases "is_paper_id ?q") (simp_all only: if_True if_False search.select_convs ne simp_thms sum.inject ex_simps)
next
  let ?s = "case author of None \<Rightarrow> ''ti:'' @ ttl | Some a \<Rightarrow> (''ti:'' @ ttl) @ ''+AND+au:'' @ a"
  have s: "?s = ''ti:'' @ (case author of None \<Rightarrow> ttl | Some a \<Rightarrow> ttl @ ''+AND+au:'' @ a)"
    by (cases author) simp_all
  have nc: "\<not> is_category ?s" unfolding s by (rule not_category_ti)
  have ne: "?s \<noteq> []" unfolding s by simp
  show "\<exists>sp'. FromPaper ttl author = Inr sp' \<and> (search_query sp' = [] \<longleftrightarrow> id_list sp' \<noteq> [])"
    unfolding FromPaper_def Let_def Search_Str_not_category [OF nc]
    by (cases "is_paper_id ?s") (simp_all only: if_True if_False search.select_convs ne simp_thms sum.inject ex_simps)
qed

theorem Search_fields_not_both_witness:
  "Search (Lst [''2101.00001'', ''2102.00002'']) =
     Inr \<lparr>search_query = '''', id_list = ''2101.00001,2102.00002''\<rparr> \<and>
   (search_query \<lparr>search_query = '''', id_list = ''2101.00001,2102.00002''\<rparr> = [] \<longleftrightarrow>
    id_list \<lparr>search_query = '''', id_list = ''2101.00001,2102.00002''\<rparr> \<noteq> [])"
proof -
  have h: "Search (Lst [''2101.00001'', ''2102.00002'']) =
     Inr \<lparr>search_query = '''', id_list = ''2101.00001,2102.00002''\<rparr>"
    by code_simp
  have n: "Lst [''2101.00001'', ''2102.00002''] \<noteq> Str [] \<and> Lst [''2101.00001'', ''2102.00002''] \<noteq> Lst []"
    by simp
  from Search_fields_not_both [of "Lst [''2101.00001'', ''2102.00002'']"
      "\<lparr>search_query = '''', id_list = ''2101.00001,2102.00002''\<rparr>"] h n
  have "search_query \<lparr>search_query = '''', id_list = ''2101.00001,2102.00002''\<rparr> = [] \<longleftrightarrow>
    id_list \<lparr>search_query = '''', id_list = ''2101.00001,2102.00002''\<rparr> \<noteq> []"
    by blast
  with h show ?thesis by blast
qed

text \<open>The claim as stated has exactly one field populated on every input the
  constructor accepts. The empty string and the empty list are accepted and populate
  neither.\<close>

theorem Search_empty_input_counterexample:
  "Search (Str '''') = Inr \<lparr>search_query = '''', id_list = ''''\<rparr> \<and>
   Search (Lst []) = Inr \<lparr>search_query = '''', id_list = ''''\<rparr>"
  by code_simp

section \<open>Searching by subject\<close>

text \<open>
  C9 (as amended). \<open>FromSubject\<close> splits the subject at every single space character:
  the words are the pieces between the spaces (joining them with one space gives the
  subject back, and no word holds a space), so consecutive spaces give empty words and
  other whitespace does not split. The words, each written \<open>all:<word>\<close>, are joined
  with \<open>+AND+\<close>. When this text is not taken for a paper identifier, it is the query
  and the identifier list is empty.
\<close>

theorem FromSubject_AND_joined:
  "join '' '' (split subject (CHR '' '')) = subject \<and>
   (\<forall>w \<in> set (split subject (CHR '' '')). CHR '' '' \<notin> set w) \<and>
   (\<not> is_paper_id (''all:'' @ hd (split subject (CHR '' '')) @
          concat (map (\<lambda>p. ''+AND+all:'' @ p) (tl (split subject (CHR '' ''))))) \<longrightarrow>
      FromSubject subject =
        Inr \<lparr>search_query = ''all:'' @ hd (split subject (CHR '' '')) @
                concat (map (\<lambda>p. ''+AND+all:'' @ p) (tl (split subject (CHR '' '')))),
             id_list = ''''\<rparr>)"
proof (intro conjI ballI impI)
  show "join '' '' (split subject (CHR '' '')) = subject" by (rule split_join)
next
  fix w assume "w \<in> set (split subject (CHR '' ''))"
  then show "CHR '' '' \<notin> set w" by (rule split_no_sep)
next
  let ?q = "''all:'' @ hd (split subject (CHR '' '')) @
          concat (map (\<lambda>p. ''+AND+all:'' @ p) (tl (split subject (CHR '' ''))))"
  assume np: "\<not> is_paper_id ?q"
  have nc: "\<not> is_category ?q" by (rule not_category_all)
  show "FromSubject subject = Inr \<lparr>search_query = ?q, id_list = ''''\<rparr>"
    unfolding FromSubject_def subject_query_all Search_Str_not_category [OF nc]
    by (simp only: np if_False)
qed

theorem FromSubject_AND_joined_witness:
  "split ''deep  learning'' (CHR '' '') = [''deep'', '''', ''learning''] \<and>
   FromSubject ''deep  learning'' =
     Inr \<lparr>search_query = ''all:deep+AND+all:+AND+all:learning'', id_list = ''''\<rparr>"
proof -
  have s: "split ''deep  learning'' (CHR '' '') = [''deep'', '''', ''learning'']" by code_simp
  have n: "\<not> is_paper_id ''all:deep+AND+all:+AND+all:learning''" by code_simp
  show ?thesis using FromSubject_AND_joined [of "''deep  learning''"] n by (simp add: s)
qed

text \<open>The claim as stated fails in two ways. A subject with a \<open>digits.digits\<close> word
  ends in the identifier list and leaves the query empty; and two consecutive spaces
  give an empty word, where splitting on whitespace gives none.\<close>

theorem FromSubject_counterexample:
  "FromSubject ''yolo 1.5'' = Inr \<lparr>search_query = '''', id_list = ''all:yolo+AND+all:1.5''\<rparr> \<and>
   FromSubject_spec ''yolo 1.5'' = \<lparr>search_query = ''all:yolo+AND+all:1.5'', id_list = ''''\<rparr> \<and>
   FromSubject ''a  b'' = Inr \<lparr>search_query = ''all:a+AND+all:+AND+all:b'', id_list = ''''\<rparr> \<and>
   FromSubject_spec ''a  b'' = \<lparr>search_query = ''all:a+AND+all:b'', id_list = ''''\<rparr>"
  by code_simp

section \<open>The loop, one iteration at a time\<close>

lemma scan_entries_takeWhile:
  "scan_entries d es (arts, n) =
     (arts @ takeWhile (on_date d) es, if list_all (on_date d) es then n else 0)"
  by (induction es arbitrary: arts) simp_all

lemma loop_done: "\<not> 0 < n_left st \<Longrightarrow> loop parse category res_per_iter d st = Inr st"
  by (subst loop.simps) simp

lemma loop_Continue:
  "0 < n_left st \<Longrightarrow> body parse category res_per_iter d st = Continue st' \<Longrightarrow>
     loop parse category res_per_iter d st = loop parse category res_per_iter d st'"
  by (subst loop.simps) simp

lemma loop_Break:
  "0 < n_left st \<Longrightarrow> body parse category res_per_iter d st = Break st' \<Longrightarrow>
     loop parse category res_per_iter d st = Inr st'"
  by (subst loop.simps) simp

lemma loop_Raise:
  "0 < n_left st \<Longrightarrow> body parse category res_per_iter d st = Raise err \<Longrightarrow>
     loop parse category res_per_iter d st = Inl err"
  by (subst loop.simps) simp

lemma body_bad_status:
  assumes "Search category = Inr s"
    and "Finalize s (n_start st) res_per_iter ''submittedDate'' ''descending'' = Inr url"
    and "parse url (world st) = (res, w)"
    and "status res \<noteq> Some 200"
  shows "body parse category res_per_iter d st =
           Break (st\<lparr>trace := trace st @ [Request url, Print_HTTP_Error (status res)], world := w\<rparr>)"
  using assms by (simp add: body_def Let_def)

lemma body_empty_page:
  assumes "Search category = Inr s"
    and "Finalize s (n_start st) res_per_iter ''submittedDate'' ''descending'' = Inr url"
    and "parse url (world st) = (res, w)"
    and "status res = Some 200"
    and "entries res = []"
  shows "body parse category res_per_iter d st =
           Break (st\<lparr>trace := trace st @ [Request url, Print_No_more_fetch], world := w\<rparr>)"
  using assms by (simp add: body_def Let_def)

lemma body_page:
  assumes "Search category = Inr s"
    and "Finalize s (n_start st) res_per_iter ''submittedDate'' ''descending'' = Inr url"
    and "parse url (world st) = (res, w)"
    and "status res = Some 200"
    and "entries res \<noteq> []"
  shows "body parse category res_per_iter d st =
           Continue (st\<lparr>articles := articles st @ takeWhile (on_date d) (entries res),
                        n_left := (if list_all (on_date d) (entries res)
                                   then n_left st - int (length (entries res)) else 0),
                        n_start := n_start st + int (length (entries res)),
                        trace := trace st @ Request url #
                          (if res_per_iter < (if list_all (on_date d) (entries res)
                                   then n_left st - int (length (entries res)) else 0)
                           then [Sleep] else []),
                        world := w\<rparr>)"
  using assms by (simp add: body_def Let_def scan_entries_takeWhile)

lemma prefix_takeWhile_all:
  "prefix ys es \<Longrightarrow> list_all P ys \<Longrightarrow> prefix ys (takeWhile P es)"
proof (induction es arbitrary: ys)
  case Nil
  then show ?case by simp
next
  case (Cons e es)
  show ?case
  proof (cases ys)
    case Nil
    then show ?thesis by simp
  next
    case (Cons y ys')
    with Cons.prems have "y = e" "prefix ys' es" "P e" "list_all P ys'" by simp_all
    with Cons.IH [of ys'] Cons show ?thesis by simp
  qed
qed

lemma scan_entries_short_circuit:
  assumes "\<not> on_date d e"
  shows "scan_entries d (pre @ e # rest) (arts, n) = scan_entries d (pre @ [e]) (arts, n)"
proof (cases "\<forall>x\<in>set pre. on_date d x")
  case True
  then show ?thesis using assms
    by (simp add: scan_entries_takeWhile takeWhile_append2 list_all_iff)
next
  case False
  then show ?thesis
    by (auto simp: scan_entries_takeWhile takeWhile_append1 list_all_iff)
qed

lemma cs_CV_search: "Search (Str ''cs.CV'') = Inr \<lparr>search_query = ''cat:cs.CV'', id_list = ''''\<rparr>"
  by code_simp

lemma cs_CV_request_0:
  "Finalize \<lparr>search_query = ''cat:cs.CV'', id_list = ''''\<rparr> 0 100 ''submittedDate'' ''descending'' =
     Inr (cs_CV_url ''0'')"
  by code_simp

lemma cs_CV_request_100:
  "Finalize \<lparr>search_query = ''cat:cs.CV'', id_list = ''''\<rparr> 100 100 ''submittedDate'' ''descending'' =
     Inr (cs_CV_url ''100'')"
  by code_simp

lemma target_4_nov: "strftime_ymd (submitted_date 739924) = ''2026-11-03''"
  by code_simp

lemma two_pages_run:
  assumes s: "Search category = Inr s"
    and u0: "Finalize s 0 100 ''submittedDate'' ''descending'' = Inr first_url"
    and p0: "parse first_url w_init = (first_page, w_mid)"
    and ok1: "status first_page = Some 200"
    and len: "length (entries first_page) = 100"
    and u1: "Finalize s 100 100 ''submittedDate'' ''descending'' = Inr second_url"
    and p1: "parse second_url w_mid = (second_page, w_end)"
    and ok2: "status second_page = Some 200"
    and empty: "entries second_page = []"
  shows "loop parse category 100 d
           \<lparr>articles = [], n_left = 200, n_start = 0, trace = [], world = w_init\<rparr> =
         Inr (if list_all (on_date d) (entries first_page)
              then \<lparr>articles = takeWhile (on_date d) (entries first_page), n_left = 100, n_start = 100,
                    trace = [Request first_url, Request second_url, Print_No_more_fetch], world = w_end\<rparr>
              else \<lparr>articles = takeWhile (on_date d) (entries first_page), n_left = 0, n_start = 100,
                    trace = [Request first_url], world = w_mid\<rparr>)"
proof -
  let ?st0 = "\<lparr>articles = [], n_left = 200, n_start = 0, trace = [], world = w_init\<rparr>"
  let ?all = "list_all (on_date d) (entries first_page)"
  let ?st1 = "\<lparr>articles = takeWhile (on_date d) (entries first_page),
               n_left = (if ?all then 100 else 0), n_start = 100,
               trace = [Request first_url], world = w_mid\<rparr>"
  from len have ne: "entries first_page \<noteq> []" by auto
  have "body parse category 100 d ?st0 = Continue ?st1"
    using body_page [of category s ?st0 100 first_url parse first_page w_mid d] s u0 p0 ok1 ne len by simp
  then have step: "loop parse category 100 d ?st0 = loop parse category 100 d ?st1"
    by (intro loop_Continue) simp_all
  show ?thesis
  proof (cases ?all)
    case False
    then have "loop parse category 100 d ?st1 = Inr ?st1" by (intro loop_done) simp
    with step False show ?thesis by simp
  next
    case True
    have "body parse category 100 d ?st1 =
            Break (?st1\<lparr>trace := trace ?st1 @ [Request second_url, Print_No_more_fetch], world := w_end\<rparr>)"
      using body_empty_page [of category s ?st1 100 second_url parse second_page w_end d] s u1 p1 ok2 empty True
      by simp
    then have "loop parse category 100 d ?st1 =
            Inr (?st1\<lparr>trace := trace ?st1 @ [Request second_url, Print_No_more_fetch], world := w_end\<rparr>)"
      using True by (intro loop_Break) simp_all
    with step True show ?thesis by simp
  qed
qed

section \<open>The scan of a page\<close>

text \<open>
  C1. For every page and every target date string, the scan of the page keeps, in their
  order, the entries of the longest prefix whose date contains the target date: the
  entries kept are a prefix of the page, each of them contains the target date, and
  every prefix of the page with that property is a prefix of it. What follows the first entry whose date does not contain it has no
  effect on the result: the scan stops there. At that entry the remaining count is set
  to 0, so the loop ends with this page and sends no further request.
\<close>

theorem daily_scan_longest_prefix:
  "scan_entries d es (arts, n) =
     (arts @ takeWhile (on_date d) es, if list_all (on_date d) es then n else 0) \<and>
   prefix (takeWhile (on_date d) es) es \<and> list_all (on_date d) (takeWhile (on_date d) es) \<and>
   (prefix ys es \<and> list_all (on_date d) ys \<longrightarrow> prefix ys (takeWhile (on_date d) es)) \<and>
   (\<not> on_date d e \<longrightarrow>
      scan_entries d (pre @ e # rest) (arts, n) = scan_entries d (pre @ [e]) (arts, n)) \<and>
   (0 < n_left st \<and> Search category = Inr s \<and>
    Finalize s (n_start st) res_per_iter ''submittedDate'' ''descending'' = Inr url \<and>
    parse url (world st) = (res, w) \<and> status res = Some 200 \<and>
    \<not> list_all (on_date d) (entries res) \<longrightarrow>
      loop parse category res_per_iter d st =
        Inr (st\<lparr>articles := articles st @ takeWhile (on_date d) (entries res),
                 n_left := 0,
                 n_start := n_start st + int (length (entries res)),
                 trace := trace st @ Request url # (if res_per_iter < 0 then [Sleep] else []),
                 world := w\<rparr>))"
proof (intro conjI impI)
  show "scan_entries d es (arts, n) =
     (arts @ takeWhile (on_date d) es, if list_all (on_date d) es then n else 0)"
    by (rule scan_entries_takeWhile)
next
  show "prefix (takeWhile (on_date d) es) es" by (rule takeWhile_is_prefix)
next
  show "list_all (on_date d) (takeWhile (on_date d) es)"
    by (auto simp: list_all_iff dest: set_takeWhileD)
next
  assume "prefix ys es \<and> list_all (on_date d) ys"
  then show "prefix ys (takeWhile (on_date d) es)"
    by (intro prefix_takeWhile_all) simp_all
next
  assume "\<not> on_date d e"
  then show "scan_entries d (pre @ e # rest) (arts, n) = scan_entries d (pre @ [e]) (arts, n)"
    by (rule scan_entries_short_circuit)
next
  assume a: "0 < n_left st \<and> Search category = Inr s \<and>
    Finalize s (n_start st) res_per_iter ''submittedDate'' ''descending'' = Inr url \<and>
    parse url (world st) = (res, w) \<and> status res = Some 200 \<and>
    \<not> list_all (on_date d) (entries res)"
  let ?st' = "st\<lparr>articles := articles st @ takeWhile (on_date d) (entries res),
                 n_left := 0,
                 n_start := n_start st + int (length (entries res)),
                 trace := trace st @ Request url # (if res_per_iter < 0 then [Sleep] else []),
                 world := w\<rparr>"
  from a have ne: "entries res \<noteq> []" by auto
  have "body parse category res_per_iter d st = Continue ?st'"
    using a ne body_page [of category s st res_per_iter url parse res w d] by simp
  then have "loop parse category res_per_iter d st = loop parse category res_per_iter d ?st'"
    using a by (intro loop_Continue) simp_all
  also have "\<dots> = Inr ?st'" by (rule loop_done) simp
  finally show "loop parse category res_per_iter d st = Inr ?st'" .
qed

theorem daily_scan_longest_prefix_witness:
  "scan_entries ''2026-11-03'' boundary_page ([], 100) =
     ([paper ''A'' ''2026-11-03T17:59:59Z'', paper ''B'' ''2026-11-03T17:58:00Z'',
       paper ''C'' ''2026-11-03T00:00:00Z''], 0) \<and>
   scan_entries ''2026-11-03''
       ([paper ''A'' ''2026-11-03T17:59:59Z'', paper ''B'' ''2026-11-03T17:58:00Z'',
         paper ''C'' ''2026-11-03T00:00:00Z''] @ paper ''D'' ''2026-11-02T23:59:59Z'' #
        [paper ''E'' ''2026-11-03T12:00:00Z'']) ([], 100) =
     scan_entries ''2026-11-03''
       ([paper ''A'' ''2026-11-03T17:59:59Z'', paper ''B'' ''2026-11-03T17:58:00Z'',
         paper ''C'' ''2026-11-03T00:00:00Z''] @ [paper ''D'' ''2026-11-02T23:59:59Z''])
       ([], 100) \<and>
   loop boundary_feed (Str ''cs.CV'') 100 ''2026-11-03''
       \<lparr>articles = [], n_left = 200, n_start = 0, trace = [], world = 0\<rparr> =
     Inr \<lparr>articles = [paper ''A'' ''2026-11-03T17:59:59Z'', paper ''B'' ''2026-11-03T17:58:00Z'',
                       paper ''C'' ''2026-11-03T00:00:00Z''],
          n_left = 0, n_start = 5, trace = [Request (cs_CV_url ''0'')], world = 1\<rparr>"
proof -
  let ?d = "''2026-11-03''"
  let ?st = "\<lparr>articles = [], n_left = 200, n_start = 0, trace = [], world = 0::nat\<rparr>"
  let ?res = "\<lparr>status = Some 200, entries = boundary_page\<rparr>"
  have tw: "takeWhile (on_date ?d) boundary_page =
      [paper ''A'' ''2026-11-03T17:59:59Z'', paper ''B'' ''2026-11-03T17:58:00Z'',
       paper ''C'' ''2026-11-03T00:00:00Z'']"
    by code_simp
  have na: "\<not> list_all (on_date ?d) boundary_page" by code_simp
  have len: "length boundary_page = 5" by (simp add: boundary_page_def)
  note inst = daily_scan_longest_prefix [where d = ?d and es = boundary_page and arts = "[]"
      and n = 100 and st = ?st and category = "Str ''cs.CV''"
      and s = "\<lparr>search_query = ''cat:cs.CV'', id_list = ''''\<rparr>" and res_per_iter = 100
      and url = "cs_CV_url ''0''" and parse = boundary_feed and res = ?res and w = 1]
  have hyp: "0 < n_left ?st \<and> Search (Str ''cs.CV'') = Inr \<lparr>search_query = ''cat:cs.CV'', id_list = ''''\<rparr> \<and>
    Finalize \<lparr>search_query = ''cat:cs.CV'', id_list = ''''\<rparr> (n_start ?st) 100 ''submittedDate'' ''descending'' = Inr (cs_CV_url ''0'') \<and>
    boundary_feed (cs_CV_url ''0'') (world ?st) = (?res, 1) \<and> status ?res = Some 200 \<and>
    \<not> list_all (on_date ?d) (entries ?res)"
    using na by (simp add: cs_CV_search cs_CV_request_0 boundary_feed_def)
  from inst have a: "scan_entries ?d boundary_page ([], 100) =
     ([] @ takeWhile (on_date ?d) boundary_page, if list_all (on_date ?d) boundary_page then 100 else 0)"
    by blast
  from inst hyp have b: "loop boundary_feed (Str ''cs.CV'') 100 ?d ?st =
        Inr (?st\<lparr>articles := articles ?st @ takeWhile (on_date ?d) (entries ?res),
                 n_left := 0,
                 n_start := n_start ?st + int (length (entries ?res)),
                 trace := trace ?st @ Request (cs_CV_url ''0'') # (if (100::int) < 0 then [Sleep] else []),
                 world := 1\<rparr>)"
    by blast
  have nd: "\<not> on_date ?d (paper ''D'' ''2026-11-02T23:59:59Z'')" by code_simp
  from nd daily_scan_longest_prefix [where d = ?d and e = "paper ''D'' ''2026-11-02T23:59:59Z''"
      and pre = "[paper ''A'' ''2026-11-03T17:59:59Z'', paper ''B'' ''2026-11-03T17:58:00Z'',
                  paper ''C'' ''2026-11-03T00:00:00Z'']"
      and rest = "[paper ''E'' ''2026-11-03T12:00:00Z'']" and arts = "[]" and n = 100]
  have c: "scan_entries ?d
       ([paper ''A'' ''2026-11-03T17:59:59Z'', paper ''B'' ''2026-11-03T17:58:00Z'',
         paper ''C'' ''2026-11-03T00:00:00Z''] @ paper ''D'' ''2026-11-02T23:59:59Z'' #
        [paper ''E'' ''2026-11-03T12:00:00Z'']) ([], 100) =
     scan_entries ?d
       ([paper ''A'' ''2026-11-03T17:59:59Z'', paper ''B'' ''2026-11-03T17:58:00Z'',
         paper ''C'' ''2026-11-03T00:00:00Z''] @ [paper ''D'' ''2026-11-02T23:59:59Z''])
       ([], 100)"
    by simp
  have a': "scan_entries ?d boundary_page ([], 100) =
     ([paper ''A'' ''2026-11-03T17:59:59Z'', paper ''B'' ''2026-11-03T17:58:00Z'',
       paper ''C'' ''2026-11-03T00:00:00Z''], 0)"
    unfolding a by (simp add: tw na)
  have b': "loop boundary_feed (Str ''cs.CV'') 100 ?d ?st =
     Inr \<lparr>articles = [paper ''A'' ''2026-11-03T17:59:59Z'', paper ''B'' ''2026-11-03T17:58:00Z'',
                       paper ''C'' ''2026-11-03T00:00:00Z''],
          n_left = 0, n_start = 5, trace = [Request (cs_CV_url ''0'')], world = 1\<rparr>"
    unfolding b by (simp add: tw len)
  from a' c b' show ?thesis by (intro conjI)
qed

section \<open>Counting the entries returned\<close>

text \<open>
  C2. A successful page of \<open>k\<close> entries moves the offset of the next request forward
  by \<open>k\<close> and takes \<open>k\<close> off the remaining count, whatever page size was asked for
  (after which the count is 0 if the scan met the date boundary, as C1 states). The
  loop ends without a request when the remaining count is not positive, and ends on a
  page of zero entries. In particular, with pages of 100 and at most 200 results, a
  first page of 100 entries followed by an empty page gives the matches of the first
  page, with no error, after at most two requests.
\<close>

theorem daily_loop_counts_returned_entries:
  "(Search category = Inr s \<and>
    Finalize s (n_start st) res_per_iter ''submittedDate'' ''descending'' = Inr url \<and>
    parse url (world st) = (res, w) \<and> status res = Some 200 \<and> entries res \<noteq> [] \<longrightarrow>
      (\<exists>st'. body parse category res_per_iter d st = Continue st' \<and>
             n_start st' = n_start st + int (length (entries res)) \<and>
             n_left st' = (if list_all (on_date d) (entries res)
                           then n_left st - int (length (entries res)) else 0))) \<and>
   (n_left st \<le> 0 \<longrightarrow> loop parse category res_per_iter d st = Inr st) \<and>
   (0 < n_left st \<and> Search category = Inr s \<and>
    Finalize s (n_start st) res_per_iter ''submittedDate'' ''descending'' = Inr url \<and>
    parse url (world st) = (res, w) \<and> status res = Some 200 \<and> entries res = [] \<longrightarrow>
      loop parse category res_per_iter d st =
        Inr (st\<lparr>trace := trace st @ [Request url, Print_No_more_fetch], world := w\<rparr>)) \<and>
   (Search category = Inr s \<and>
    Finalize s 0 100 ''submittedDate'' ''descending'' = Inr first_url \<and>
    parse first_url w_init = (first_page, w_mid) \<and> status first_page = Some 200 \<and> length (entries first_page) = 100 \<and>
    Finalize s 100 100 ''submittedDate'' ''descending'' = Inr second_url \<and>
    parse second_url w_mid = (second_page, w_end) \<and> status second_page = Some 200 \<and> entries second_page = [] \<longrightarrow>
      (\<exists>st'. query_daily_paper parse category today w_init 0 200 100 = Inr st' \<and>
             articles st' = takeWhile (on_date (strftime_ymd (submitted_date today))) (entries first_page) \<and>
             trace st' =
               (if list_all (on_date (strftime_ymd (submitted_date today))) (entries first_page)
                then [Request first_url, Request second_url, Print_No_more_fetch]
                else [Request first_url])))"
proof (intro conjI impI)
  assume "Search category = Inr s \<and>
    Finalize s (n_start st) res_per_iter ''submittedDate'' ''descending'' = Inr url \<and>
    parse url (world st) = (res, w) \<and> status res = Some 200 \<and> entries res \<noteq> []"
  then show "\<exists>st'. body parse category res_per_iter d st = Continue st' \<and>
             n_start st' = n_start st + int (length (entries res)) \<and>
             n_left st' = (if list_all (on_date d) (entries res)
                           then n_left st - int (length (entries res)) else 0)"
    using body_page [of category s st res_per_iter url parse res w d] by simp
next
  assume "n_left st \<le> 0"
  then show "loop parse category res_per_iter d st = Inr st" by (intro loop_done) simp
next
  assume a: "0 < n_left st \<and> Search category = Inr s \<and>
    Finalize s (n_start st) res_per_iter ''submittedDate'' ''descending'' = Inr url \<and>
    parse url (world st) = (res, w) \<and> status res = Some 200 \<and> entries res = []"
  then have "body parse category res_per_iter d st =
      Break (st\<lparr>trace := trace st @ [Request url, Print_No_more_fetch], world := w\<rparr>)"
    using body_empty_page [of category s st res_per_iter url parse res w d] by simp
  with a show "loop parse category res_per_iter d st =
        Inr (st\<lparr>trace := trace st @ [Request url, Print_No_more_fetch], world := w\<rparr>)"
    by (intro loop_Break) simp_all
next
  let ?d = "strftime_ymd (submitted_date today)"
  assume a: "Search category = Inr s \<and>
    Finalize s 0 100 ''submittedDate'' ''descending'' = Inr first_url \<and>
    parse first_url w_init = (first_page, w_mid) \<and> status first_page = Some 200 \<and> length (entries first_page) = 100 \<and>
    Finalize s 100 100 ''submittedDate'' ''descending'' = Inr second_url \<and>
    parse second_url w_mid = (second_page, w_end) \<and> status second_page = Some 200 \<and> entries second_page = []"
  then have run: "loop parse category 100 ?d
           \<lparr>articles = [], n_left = 200, n_start = 0, trace = [], world = w_init\<rparr> =
         Inr (if list_all (on_date ?d) (entries first_page)
              then \<lparr>articles = takeWhile (on_date ?d) (entries first_page), n_left = 100, n_start = 100,
                    trace = [Request first_url, Request second_url, Print_No_more_fetch], world = w_end\<rparr>
              else \<lparr>articles = takeWhile (on_date ?d) (entries first_page), n_left = 0, n_start = 100,
                    trace = [Request first_url], world = w_mid\<rparr>)"
    using two_pages_run [of category s first_url parse w_init first_page w_mid second_url second_page w_end ?d] by simp
  show "\<exists>st'. query_daily_paper parse category today w_init 0 200 100 = Inr st' \<and>
             articles st' = takeWhile (on_date ?d) (entries first_page) \<and>
             trace st' =
               (if list_all (on_date ?d) (entries first_page)
                then [Request first_url, Request second_url, Print_No_more_fetch]
                else [Request first_url])"
    unfolding query_daily_paper_def run by simp
qed

theorem daily_loop_counts_returned_entries_witness:
  "(\<exists>st'. body short_feed (Str ''cs.CV'') 100 ''2026-11-03''
             \<lparr>articles = [], n_left = 200, n_start = 0, trace = [], world = 0\<rparr> = Continue st' \<and>
          n_start st' = 3 \<and> n_left st' = 197) \<and>
   loop two_page_feed (Str ''cs.CV'') 100 ''2026-11-03''
       \<lparr>articles = full_page, n_left = 0, n_start = 100, trace = [], world = 1\<rparr> =
     Inr \<lparr>articles = full_page, n_left = 0, n_start = 100, trace = [], world = 1\<rparr> \<and>
   loop two_page_feed (Str ''cs.CV'') 100 ''2026-11-03''
       \<lparr>articles = full_page, n_left = 100, n_start = 100, trace = [], world = 1\<rparr> =
     Inr \<lparr>articles = full_page, n_left = 100, n_start = 100,
          trace = [Request (cs_CV_url ''100''), Print_No_more_fetch], world = 2\<rparr> \<and>
   (\<exists>st'. query_daily_paper two_page_feed (Str ''cs.CV'') 739924 0 0 200 100 = Inr st' \<and>
          articles st' = full_page \<and>
          trace st' = [Request (cs_CV_url ''0''), Request (cs_CV_url ''100''), Print_No_more_fetch])"
proof -
  let ?d = "''2026-11-03''"
  let ?s = "\<lparr>search_query = ''cat:cs.CV'', id_list = ''''\<rparr>"
  let ?st0 = "\<lparr>articles = [], n_left = 200, n_start = 0, trace = [], world = 0::nat\<rparr>"
  let ?stz = "\<lparr>articles = full_page, n_left = 0, n_start = 100, trace = [], world = 1::nat\<rparr>"
  let ?st1 = "\<lparr>articles = full_page, n_left = 100, n_start = 100, trace = [], world = 1::nat\<rparr>"
  let ?short = "\<lparr>status = Some 200, entries = short_page\<rparr>"
  let ?full = "\<lparr>status = Some 200, entries = full_page\<rparr>"
  let ?none = "\<lparr>status = Some 200, entries = []\<rparr>"
  have all_short: "list_all (on_date ?d) short_page" by code_simp
  have all_full: "list_all (on_date ?d) full_page" by code_simp
  have tw_full: "takeWhile (on_date ?d) full_page = full_page"
    using all_full by (simp add: list_all_iff)
  have len_short: "length short_page = 3" by (simp add: short_page_def)
  have len_full: "length full_page = 100" by (simp add: full_page_def)
  have a: "\<exists>st'. body short_feed (Str ''cs.CV'') 100 ?d ?st0 = Continue st' \<and>
          n_start st' = 3 \<and> n_left st' = 197"
    using daily_loop_counts_returned_entries [where category = "Str ''cs.CV''" and s = ?s
        and st = ?st0 and res_per_iter = 100 and url = "cs_CV_url ''0''" and parse = short_feed
        and res = ?short and w = 1 and d = ?d]
      all_short len_short
    by (simp add: cs_CV_search cs_CV_request_0 short_feed_def) (simp add: short_page_def)
  have b: "loop two_page_feed (Str ''cs.CV'') 100 ?d ?stz = Inr ?stz"
    using daily_loop_counts_returned_entries [where st = ?stz and parse = two_page_feed
        and category = "Str ''cs.CV''" and res_per_iter = 100 and d = ?d]
    by simp
  have c: "loop two_page_feed (Str ''cs.CV'') 100 ?d ?st1 =
     Inr \<lparr>articles = full_page, n_left = 100, n_start = 100,
          trace = [Request (cs_CV_url ''100''), Print_No_more_fetch], world = 2\<rparr>"
    using daily_loop_counts_returned_entries [where category = "Str ''cs.CV''" and s = ?s
        and st = ?st1 and res_per_iter = 100 and url = "cs_CV_url ''100''" and parse = two_page_feed
        and res = ?none and w = 2 and d = ?d]
    by (simp add: cs_CV_search cs_CV_request_100 two_page_feed_def)
  have d: "\<exists>st'. query_daily_paper two_page_feed (Str ''cs.CV'') 739924 0 0 200 100 = Inr st' \<and>
          articles st' = full_page \<and>
          trace st' = [Request (cs_CV_url ''0''), Request (cs_CV_url ''100''), Print_No_more_fetch]"
    using daily_loop_counts_returned_entries [where category = "Str ''cs.CV''" and s = ?s
        and parse = two_page_feed and first_url = "cs_CV_url ''0''" and w_init = 0 and first_page = ?full
        and w_mid = 1 and second_url = "cs_CV_url ''100''" and second_page = ?none and w_end = 2
        and today = 739924]
      all_full tw_full len_full
    by (simp add: cs_CV_search cs_CV_request_0 cs_CV_request_100 two_page_feed_def target_4_nov)
  from a b c d show ?thesis by (intro conjI)
qed

section \<open>A request that fails\<close>

text \<open>
  C7. When the answer to a request has a status other than 200 (or none), the loop
  raises nothing: it prints the HTTP error and ends, and the articles returned are
  those gathered from the earlier pages. When the first request fails, the daily
  query returns no article.
\<close>

theorem daily_loop_stops_on_bad_status:
  "(0 < n_left st \<and> Search category = Inr s \<and>
    Finalize s (n_start st) res_per_iter ''submittedDate'' ''descending'' = Inr url \<and>
    parse url (world st) = (res, w) \<and> status res \<noteq> Some 200 \<longrightarrow>
      loop parse category res_per_iter d st =
        Inr (st\<lparr>trace := trace st @ [Request url, Print_HTTP_Error (status res)], world := w\<rparr>) \<and>
      articles (st\<lparr>trace := trace st @ [Request url, Print_HTTP_Error (status res)], world := w\<rparr>) =
        articles st) \<and>
   (0 < max_results \<and> Search category = Inr s \<and>
    Finalize s start res_per_iter ''submittedDate'' ''descending'' = Inr first_url \<and>
    parse first_url w_init = (first_res, w_mid) \<and> status first_res \<noteq> Some 200 \<longrightarrow>
      query_daily_paper parse category today w_init start max_results res_per_iter =
        Inr \<lparr>articles = [], n_left = max_results, n_start = start,
             trace = [Request first_url, Print_HTTP_Error (status first_res)], world = w_mid\<rparr>)"
proof (intro conjI impI)
  assume a: "0 < n_left st \<and> Search category = Inr s \<and>
    Finalize s (n_start st) res_per_iter ''submittedDate'' ''descending'' = Inr url \<and>
    parse url (world st) = (res, w) \<and> status res \<noteq> Some 200"
  then have "body parse category res_per_iter d st =
      Break (st\<lparr>trace := trace st @ [Request url, Print_HTTP_Error (status res)], world := w\<rparr>)"
    using body_bad_status [of category s st res_per_iter url parse res w d] by simp
  with a show "loop parse category res_per_iter d st =
        Inr (st\<lparr>trace := trace st @ [Request url, Print_HTTP_Error (status res)], world := w\<rparr>)"
    by (intro loop_Break) simp_all
next
  show "articles (st\<lparr>trace := trace st @ [Request url, Print_HTTP_Error (status res)], world := w\<rparr>) =
        articles st" by simp
next
  let ?st0 = "\<lparr>articles = [], n_left = max_results, n_start = start, trace = [], world = w_init\<rparr>"
  assume a: "0 < max_results \<and> Search category = Inr s \<and>
    Finalize s start res_per_iter ''submittedDate'' ''descending'' = Inr first_url \<and>
    parse first_url w_init = (first_res, w_mid) \<and> status first_res \<noteq> Some 200"
  then have "body parse category res_per_iter (strftime_ymd (submitted_date today)) ?st0 =
      Break (?st0\<lparr>trace := trace ?st0 @ [Request first_url, Print_HTTP_Error (status first_res)], world := w_mid\<rparr>)"
    using body_bad_status [of category s ?st0 res_per_iter first_url parse first_res w_mid
        "strftime_ymd (submitted_date today)"] by simp
  with a have "loop parse category res_per_iter (strftime_ymd (submitted_date today)) ?st0 =
      Inr (?st0\<lparr>trace := trace ?st0 @ [Request first_url, Print_HTTP_Error (status first_res)], world := w_mid\<rparr>)"
    by (intro loop_Break) simp_all
  then show "query_daily_paper parse category today w_init start max_results res_per_iter =
        Inr \<lparr>articles = [], n_left = max_results, n_start = start,
             trace = [Request first_url, Print_HTTP_Error (status first_res)], world = w_mid\<rparr>"
    by (simp add: query_daily_paper_def)
qed

theorem daily_loop_stops_on_bad_status_witness:
  "loop failing_feed (Str ''cs.CV'') 100 ''2026-11-03''
       \<lparr>articles = [paper ''A'' ''2026-11-03T17:59:59Z''], n_left = 100, n_start = 100,
        trace = [], world = 1\<rparr> =
     Inr \<lparr>articles = [paper ''A'' ''2026-11-03T17:59:59Z''], n_left = 100, n_start = 100,
          trace = [Request (cs_CV_url ''100''), Print_HTTP_Error (Some 503)], world = 2\<rparr> \<and>
   query_daily_paper failing_feed (Str ''cs.CV'') 739924 0 0 200 100 =
     Inr \<lparr>articles = [], n_left = 200, n_start = 0,
          trace = [Request (cs_CV_url ''0''), Print_HTTP_Error (Some 503)], world = 1\<rparr>"
proof -
  let ?s = "\<lparr>search_query = ''cat:cs.CV'', id_list = ''''\<rparr>"
  let ?st = "\<lparr>articles = [paper ''A'' ''2026-11-03T17:59:59Z''], n_left = 100, n_start = 100,
        trace = [], world = 1::nat\<rparr>"
  let ?bad = "\<lparr>status = Some 503, entries = []\<rparr>"
  show ?thesis
    using daily_loop_stops_on_bad_status [where category = "Str ''cs.CV''" and s = ?s
        and st = ?st and res_per_iter = 100 and url = "cs_CV_url ''100''" and parse = failing_feed
        and res = ?bad and w = 2 and d = "''2026-11-03''"
        and max_results = 200 and start = 0 and first_url = "cs_CV_url ''0''" and w_init = 0
        and first_res = ?bad and w_mid = 1 and today = 739924]
    by (simp add: cs_CV_search cs_CV_request_0 cs_CV_request_100 failing_feed_def)
qed

end
